theory Spec2Isabelle
  imports Complex_Main "HOL-Library.AList"
begin

section \<open>Camera streams and their registry (backend/core/camera\_manager.py)\<close>

text \<open>
  The module has two classes. \<open>CameraStream\<close> owns one capture device and a worker
  thread that stores the latest frame; \<open>CameraManager\<close> owns the dictionary from camera
  id to \<open>CameraStream\<close> and guards every method with one re-entrant lock.

  Conventions of the embedding:
  \<^item> an object is a record, a method takes the record and returns the updated record
    next to its return value;
  \<^item> the device, the clock and the configuration database are inputs: every call of
    \<open>time.time()\<close>, \<open>cap.isOpened()\<close> and \<open>cap.read()\<close> takes its value from an
    \<open>env_input\<close>;
  \<^item> a stream keeps every thread it has launched, oldest first, each as a program
    counter; \<open>self.thread\<close> is the last of them. \<open>start\<close> launches a new thread
    whether or not an older one is still alive, and all of them act on the same
    fields of the stream;
  \<^item> one \<open>worker_step\<close> runs the thread named by the input from one suspension point
    to the next, and the steps the threads make while a method sleeps or joins are an
    argument of that method;
  \<^item> a method body is atomic apart from its \<open>time.sleep\<close> and \<open>Thread.join\<close>;
  \<^item> a stream removed from the dictionary lives on while its threads run: the
    registry keeps it in \<open>discarded\<close>;
  \<^item> Python floats are exact rationals here;
  \<^item> lock acquisitions, lock releases and joins are appended to an event trace.
\<close>

subsection \<open>Data\<close>

type_synonym frame = "nat list"

datatype py_error = ZeroDivisionError | TypeError | DatabaseError

text \<open>
  A row of \<open>db_utils.get_camera_configs\<close>. Every row has the four keys, so the
  default of \<open>camera_config.get('fps', 30)\<close> is never taken; \<open>cfg_fps\<close> is \<open>None\<close> when
  the column is NULL.
\<close>

record camera_config =
  cfg_id :: int
  cfg_camera_name :: string
  cfg_stream_url :: string
  cfg_fps :: "int option"

datatype capture = VideoCapture

text \<open>
  Where the thread of \<open>_stream_worker\<close> stands: before \<open>cv2.VideoCapture\<close>, at the test
  of the \<open>while\<close>, inside the loop body (both with the local \<open>frame_interval\<close>), or
  after \<open>_cleanup\<close>.
\<close>

datatype thread_state = AtOpen | LoopHead rat | LoopBody rat | Finished

record CameraStream =
  camera_id :: int
  camera_name :: string
  stream_url :: string
  fps :: "int option"
  is_running :: bool
  cap :: "capture option"
  threads :: "thread_state list"
  shutdown_event :: bool
  latest_frame :: "frame option"
  frame_timestamp :: rat
  frames_captured :: nat
  start_time :: "rat option"
  last_frame_time :: rat

datatype open_outcome = Opened | NotOpened | OpenRaised

datatype read_outcome = ReadOk frame | ReadFailed | ReadRaised

text \<open>
  One input: which thread of the stream moves (its position in \<open>threads\<close>), and what
  the device and the clock answer if it asks.
\<close>

record env_input =
  tid :: nat
  cap_open :: open_outcome
  clock :: rat
  cap_read :: read_outcome

datatype event = LockAcquire | LockRelease | ThreadJoin int

subsection \<open>CameraStream\<close>

definition CameraStream_init :: "camera_config \<Rightarrow> CameraStream" where
  "CameraStream_init c =
     \<lparr> camera_id = cfg_id c,
       camera_name = cfg_camera_name c,
       stream_url = cfg_stream_url c,
       fps = cfg_fps c,
       is_running = False,
       cap = None,
       threads = [],
       shutdown_event = False,
       latest_frame = None,
       frame_timestamp = 0,
       frames_captured = 0,
       start_time = None,
       last_frame_time = 0 \<rparr>"

definition cleanup :: "CameraStream \<Rightarrow> CameraStream" where
  "cleanup s = s\<lparr>is_running := False, cap := None\<rparr>"

text \<open>\<open>frame_interval = 1.0 / self.fps\<close>: raises for \<open>None\<close> and for zero.\<close>

definition frame_interval :: "CameraStream \<Rightarrow> py_error + rat" where
  "frame_interval s =
     (case fps s of
        None \<Rightarrow> Inl TypeError
      | Some n \<Rightarrow> if n = 0 then Inl ZeroDivisionError else Inr (1 / of_int n))"

definition set_thread :: "nat \<Rightarrow> thread_state \<Rightarrow> CameraStream \<Rightarrow> CameraStream" where
  "set_thread i t s = s\<lparr>threads := (threads s)[i := t]\<rparr>"

text \<open>
  One step of \<open>_stream_worker\<close>. Every exception of the set-up is caught by the outer
  \<open>try\<close>, whose \<open>finally\<close> runs \<open>_cleanup\<close>; every exception of the loop body is caught
  by the inner \<open>try\<close> and the loop goes on. In the loop body \<open>self.cap.read()\<close> raises
  when \<open>self.cap\<close> is \<open>None\<close>, which the \<open>_cleanup\<close> of another thread of the same
  stream can make it.
\<close>

definition loop_body :: "rat \<Rightarrow> env_input \<Rightarrow> CameraStream \<Rightarrow> CameraStream" where
  "loop_body fi e s =
     (if clock e - last_frame_time s < fi then s
      else case cap s of
             None \<Rightarrow> s
           | Some c \<Rightarrow>
               (case cap_read e of
                  ReadRaised \<Rightarrow> s
                | ReadFailed \<Rightarrow> s
                | ReadOk f \<Rightarrow>
                    s\<lparr>latest_frame := Some f,
                      frame_timestamp := clock e,
                      frames_captured := frames_captured s + 1,
                      last_frame_time := clock e\<rparr>))"

definition worker_open :: "env_input \<Rightarrow> CameraStream \<Rightarrow> CameraStream" where
  "worker_open e s =
     (case cap_open e of
        OpenRaised \<Rightarrow> set_thread (tid e) Finished (cleanup s)
      | NotOpened \<Rightarrow> set_thread (tid e) Finished (cleanup (s\<lparr>cap := Some VideoCapture\<rparr>))
      | Opened \<Rightarrow>
          (let s1 = s\<lparr>cap := Some VideoCapture, is_running := True,
                      start_time := Some (clock e)\<rparr>
           in case frame_interval s1 of
                Inl err \<Rightarrow> set_thread (tid e) Finished (cleanup s1)
              | Inr fi \<Rightarrow> set_thread (tid e) (LoopHead fi) s1))"

definition worker_step :: "env_input \<Rightarrow> CameraStream \<Rightarrow> CameraStream" where
  "worker_step e s =
     (if tid e < length (threads s)
      then case threads s ! tid e of
             Finished \<Rightarrow> s
           | AtOpen \<Rightarrow> worker_open e s
           | LoopHead fi \<Rightarrow>
               (if shutdown_event s then set_thread (tid e) Finished (cleanup s)
                else set_thread (tid e) (LoopBody fi) s)
           | LoopBody fi \<Rightarrow> set_thread (tid e) (LoopHead fi) (loop_body fi e s)
      else s)"

fun run_worker :: "env_input list \<Rightarrow> CameraStream \<Rightarrow> CameraStream" where
  "run_worker [] s = s"
| "run_worker (e # es) s = run_worker es (worker_step e s)"

text \<open>\<open>self.thread\<close>: the thread launched last, \<open>None\<close> before the first \<open>start\<close>.\<close>

definition self_thread :: "CameraStream \<Rightarrow> thread_state option" where
  "self_thread s = (if threads s = [] then None else Some (last (threads s)))"

definition is_alive :: "thread_state option \<Rightarrow> bool" where
  "is_alive t = (case t of None \<Rightarrow> False | Some Finished \<Rightarrow> False | Some p \<Rightarrow> True)"

text \<open>
  \<open>self.thread.join(timeout=3.0)\<close>: the threads of the stream move until the joined
  one has finished or the inputs of the three seconds are used up.
\<close>

fun join_worker :: "env_input list \<Rightarrow> CameraStream \<Rightarrow> CameraStream" where
  "join_worker [] s = s"
| "join_worker (e # es) s =
     (if is_alive (self_thread s) then join_worker es (worker_step e s) else s)"

text \<open>
  \<open>start\<close>: the argument is what the threads of the stream do during
  \<open>time.sleep(0.5)\<close>. The new thread is launched next to the older ones.
\<close>

definition start :: "env_input list \<Rightarrow> CameraStream \<Rightarrow> bool \<times> CameraStream" where
  "start during_sleep s =
     (if is_running s then (False, s)
      else let s1 = s\<lparr>shutdown_event := False, threads := threads s @ [AtOpen]\<rparr>;
               s2 = run_worker during_sleep s1
           in (is_running s2, s2))"

text \<open>
  \<open>stop\<close>: the argument is what the threads do during \<open>join(timeout=3.0)\<close>; the join
  is reported as an event.
\<close>

definition stop :: "env_input list \<Rightarrow> CameraStream \<Rightarrow> bool \<times> event list \<times> CameraStream" where
  "stop during_join s =
     (if \<not> is_running s then (False, [], s)
      else let s1 = s\<lparr>shutdown_event := True\<rparr>;
               (evs, s2) = (if is_alive (self_thread s1)
                            then ([ThreadJoin (camera_id s1)], join_worker during_join s1)
                            else ([], s1))
           in (True, evs, s2\<lparr>is_running := False\<rparr>))"

definition get_latest_frame :: "CameraStream \<Rightarrow> frame option" where
  "get_latest_frame s = (case latest_frame s of Some f \<Rightarrow> Some f | None \<Rightarrow> None)"

text \<open>
  \<open>get_stream_info\<close> reads the clock twice. \<open>if self.start_time\<close> is Python truth:
  false for \<open>None\<close> and for \<open>0.0\<close>. The division is the one place that can raise.
\<close>

record StatusSnapshot =
  info_camera_id :: int
  info_camera_name :: string
  info_is_running :: bool
  info_frames_captured :: nat
  uptime_seconds :: rat
  actual_fps :: rat
  configured_fps :: "int option"
  last_frame_age :: "rat option"

definition py_div :: "rat \<Rightarrow> rat \<Rightarrow> py_error + rat" where
  "py_div a b = (if b = 0 then Inl ZeroDivisionError else Inr (a / b))"

text \<open>\<open>round(x, 2)\<close> on exact values: to the nearest hundredth, ties to even.\<close>

definition round_half_even :: "rat \<Rightarrow> int" where
  "round_half_even x =
     (let f = \<lfloor>x\<rfloor>; d = x - of_int f
      in if d < 1 / 2 then f else if 1 / 2 < d then f + 1 else if even f then f else f + 1)"

definition py_round2 :: "rat \<Rightarrow> rat" where
  "py_round2 x = of_int (round_half_even (x * 100)) / 100"

definition uptime_of :: "rat \<Rightarrow> CameraStream \<Rightarrow> rat" where
  "uptime_of now s =
     (case start_time s of
        None \<Rightarrow> 0
      | Some t \<Rightarrow> if t = 0 then 0 else now - t)"

definition get_stream_info :: "rat \<Rightarrow> rat \<Rightarrow> CameraStream \<Rightarrow> py_error + StatusSnapshot" where
  "get_stream_info now1 now2 s =
     (let uptime = uptime_of now1 s
      in case (if 0 < uptime then py_div (of_nat (frames_captured s)) uptime else Inr 0) of
           Inl err \<Rightarrow> Inl err
         | Inr afps \<Rightarrow>
             Inr \<lparr> info_camera_id = camera_id s,
                   info_camera_name = camera_name s,
                   info_is_running = is_running s,
                   info_frames_captured = frames_captured s,
                   uptime_seconds = uptime,
                   actual_fps = py_round2 afps,
                   configured_fps = fps s,
                   last_frame_age =
                     (if 0 < last_frame_time s then Some (now2 - last_frame_time s)
                      else None) \<rparr>)"

subsection \<open>CameraManager\<close>

text \<open>
  \<open>streams\<close> is the dictionary in insertion order; \<open>AList.update\<close> replaces the value of
  a key in place and appends a new key, as a Python dict does. \<open>discarded\<close> holds the
  streams that \<open>self.streams.clear()\<close> has removed, as they were when removed, oldest
  first: no method reads it.
\<close>

record CameraManager =
  streams :: "(int \<times> CameraStream) list"
  discarded :: "(int \<times> CameraStream) list"
  trace :: "event list"

definition CameraManager_init :: CameraManager where
  "CameraManager_init = \<lparr> streams = [], discarded = [], trace = [] \<rparr>"

text \<open>\<open>with self.manager_lock:\<close> around a method body.\<close>

definition with_lock ::
  "(CameraManager \<Rightarrow> 'a \<times> CameraManager) \<Rightarrow> CameraManager \<Rightarrow> 'a \<times> CameraManager" where
  "with_lock body m =
     (let (r, m1) = body (m\<lparr>trace := trace m @ [LockAcquire]\<rparr>)
      in (r, m1\<lparr>trace := trace m1 @ [LockRelease]\<rparr>))"

text \<open>The argument is the outcome of \<open>db_utils.get_camera_configs()\<close>.\<close>

definition load_camera_configs :: "py_error + camera_config list \<Rightarrow> camera_config list" where
  "load_camera_configs db = (case db of Inl err \<Rightarrow> [] | Inr cfgs \<Rightarrow> cfgs)"

definition add_stream :: "CameraManager \<Rightarrow> camera_config \<Rightarrow> CameraManager" where
  "add_stream m c =
     (if map_of (streams m) (cfg_id c) = None
      then m\<lparr>streams := AList.update (cfg_id c) (CameraStream_init c) (streams m)\<rparr>
      else m)"

definition initialize_cameras ::
  "py_error + camera_config list \<Rightarrow> CameraManager \<Rightarrow> bool \<times> CameraManager" where
  "initialize_cameras db =
     with_lock (\<lambda>m.
       let camera_configs = load_camera_configs db
       in if camera_configs = [] then (False, m)
          else (True, foldl add_stream m camera_configs))"

definition start_stream ::
  "env_input list \<Rightarrow> int \<Rightarrow> CameraStream \<Rightarrow> CameraManager \<Rightarrow> bool \<times> CameraManager" where
  "start_stream during_sleep cid s m =
     (let (r, s1) = start during_sleep s
      in (r, m\<lparr>streams := AList.update cid s1 (streams m)\<rparr>))"

definition start_camera ::
  "py_error + camera_config list \<Rightarrow> env_input list \<Rightarrow> int \<Rightarrow> CameraManager
     \<Rightarrow> bool \<times> CameraManager" where
  "start_camera db during_sleep cid =
     with_lock (\<lambda>m.
       case map_of (streams m) cid of
         None \<Rightarrow>
           (case find (\<lambda>c. cfg_id c = cid) (load_camera_configs db) of
              None \<Rightarrow> (False, m)
            | Some c \<Rightarrow>
                start_stream during_sleep cid (CameraStream_init c)
                  (m\<lparr>streams := AList.update cid (CameraStream_init c) (streams m)\<rparr>))
       | Some s \<Rightarrow> start_stream during_sleep cid s m)"

definition stop_camera ::
  "env_input list \<Rightarrow> int \<Rightarrow> CameraManager \<Rightarrow> bool \<times> CameraManager" where
  "stop_camera during_join cid =
     with_lock (\<lambda>m.
       case map_of (streams m) cid of
         None \<Rightarrow> (False, m)
       | Some s \<Rightarrow>
           (let (r, evs, s1) = stop during_join s
            in (r, m\<lparr>streams := AList.update cid s1 (streams m),
                     trace := trace m @ evs\<rparr>)))"

text \<open>
  The loop of \<open>stop_all_cameras\<close> over \<open>self.streams.items()\<close>; the keys of a
  dictionary are distinct, so \<open>results\<close> gets one new entry per item, in order.
\<close>

fun stop_each ::
  "(int \<Rightarrow> env_input list) \<Rightarrow> (int \<times> CameraStream) list
     \<Rightarrow> (int \<times> bool) list \<times> event list \<times> (int \<times> CameraStream) list" where
  "stop_each joins [] = ([], [], [])"
| "stop_each joins ((cid, s) # rest) =
     (let (r, evs, s1) = stop (joins cid) s;
          (results, evs_rest, rest1) = stop_each joins rest
      in ((cid, r) # results, evs @ evs_rest, (cid, s1) # rest1))"

definition stop_all_cameras ::
  "(int \<Rightarrow> env_input list) \<Rightarrow> CameraManager \<Rightarrow> (int \<times> bool) list \<times> CameraManager" where
  "stop_all_cameras joins =
     with_lock (\<lambda>m.
       let (results, evs, ss) = stop_each joins (streams m)
       in (results, m\<lparr>streams := ss, trace := trace m @ evs\<rparr>))"

definition get_camera_frame :: "int \<Rightarrow> CameraManager \<Rightarrow> frame option \<times> CameraManager" where
  "get_camera_frame cid =
     with_lock (\<lambda>m.
       case map_of (streams m) cid of
         None \<Rightarrow> (None, m)
       | Some s \<Rightarrow> (get_latest_frame s, m))"

definition get_camera_status ::
  "rat \<Rightarrow> rat \<Rightarrow> int \<Rightarrow> CameraManager
     \<Rightarrow> (py_error + StatusSnapshot option) \<times> CameraManager" where
  "get_camera_status now1 now2 cid =
     with_lock (\<lambda>m.
       case map_of (streams m) cid of
         None \<Rightarrow> (Inr None, m)
       | Some s \<Rightarrow>
           (case get_stream_info now1 now2 s of
              Inl err \<Rightarrow> (Inl err, m)
            | Inr info \<Rightarrow> (Inr (Some info), m)))"

definition is_camera_running :: "int \<Rightarrow> CameraManager \<Rightarrow> bool \<times> CameraManager" where
  "is_camera_running cid =
     with_lock (\<lambda>m.
       case map_of (streams m) cid of
         None \<Rightarrow> (False, m)
       | Some s \<Rightarrow> (is_running s, m))"

definition refresh_camera_configs ::
  "py_error + camera_config list \<Rightarrow> (int \<Rightarrow> env_input list) \<Rightarrow> CameraManager
     \<Rightarrow> bool \<times> CameraManager" where
  "refresh_camera_configs db joins =
     with_lock (\<lambda>m.
       let (results, m1) = stop_all_cameras joins m;
           m2 = m1\<lparr>discarded := discarded m1 @ streams m1, streams := []\<rparr>
       in initialize_cameras db m2)"

text \<open>
  What the threads of camera \<open>cid\<close> do between two calls of the registry: not a
  method, the scheduler.
\<close>

definition thread_progress :: "env_input list \<Rightarrow> int \<Rightarrow> CameraManager \<Rightarrow> CameraManager" where
  "thread_progress es cid m =
     (case map_of (streams m) cid of
        None \<Rightarrow> m
      | Some s \<Rightarrow> m\<lparr>streams := AList.update cid (run_worker es s) (streams m)\<rparr>)"

text \<open>The known ids of the registry: the keys of \<open>self.streams\<close>.\<close>

definition known_ids :: "CameraManager \<Rightarrow> int set" where
  "known_ids m = fst ` set (streams m)"

text \<open>
  Reading a trace: the number of acquisitions of the re-entrant lock that are still
  open at each \<open>ThreadJoin\<close>, starting from \<open>d\<close>.
\<close>

fun lock_depth_at_joins :: "nat \<Rightarrow> event list \<Rightarrow> nat list" where
  "lock_depth_at_joins d [] = []"
| "lock_depth_at_joins d (LockAcquire # es) = lock_depth_at_joins (Suc d) es"
| "lock_depth_at_joins d (LockRelease # es) = lock_depth_at_joins (d - 1) es"
| "lock_depth_at_joins d (ThreadJoin c # es) = d # lock_depth_at_joins d es"

definition joins_outside_lock :: "event list \<Rightarrow> bool" where
  "joins_outside_lock tr = list_all (\<lambda>d. d = 0) (lock_depth_at_joins 0 tr)"

text \<open>The events a registry method appends to the trace.\<close>

definition emitted ::
  "(CameraManager \<Rightarrow> 'a \<times> CameraManager) \<Rightarrow> CameraManager \<Rightarrow> event list" where
  "emitted op m = drop (length (trace m)) (trace (snd (op m)))"

text \<open>
  The two tests of \<open>CameraStream.stop\<close> before its \<open>join\<close>, on the stream of \<open>cid\<close>:
  the running flag, and \<open>self.thread and self.thread.is_alive()\<close>.
\<close>

definition stop_joins :: "int \<Rightarrow> CameraManager \<Rightarrow> bool" where
  "stop_joins cid m =
     (case map_of (streams m) cid of
        None \<Rightarrow> False
      | Some s \<Rightarrow> is_running s \<and> is_alive (self_thread s))"

text \<open>
  The states a \<open>CameraStream\<close> object can be in: constructed, then any sequence of
  steps of its thread and calls of \<open>start\<close> and \<open>stop\<close>.
\<close>

inductive reachable :: "CameraStream \<Rightarrow> bool" where
  reach_init: "reachable (CameraStream_init c)"
| reach_step: "reachable s \<Longrightarrow> reachable (worker_step e s)"
| reach_start: "reachable s \<Longrightarrow> reachable (snd (start es s))"
| reach_stop: "reachable s \<Longrightarrow> reachable (snd (snd (stop es s)))"

text \<open>Positions of a thread.\<close>

definition at_open :: "thread_state \<Rightarrow> bool" where
  "at_open t = (case t of AtOpen \<Rightarrow> True | _ \<Rightarrow> False)"

definition at_body :: "thread_state \<Rightarrow> bool" where
  "at_body t = (case t of LoopBody fi \<Rightarrow> True | _ \<Rightarrow> False)"

definition finished :: "thread_state \<Rightarrow> bool" where
  "finished t = (case t of Finished \<Rightarrow> True | _ \<Rightarrow> False)"

text \<open>Some thread of the stream has not yet come back from \<open>cv2.VideoCapture\<close>.\<close>

definition still_opening :: "CameraStream \<Rightarrow> bool" where
  "still_opening s = list_ex at_open (threads s)"

text \<open>Some thread passed the loop test and is about to read a frame.\<close>

definition in_loop_body :: "CameraStream \<Rightarrow> bool" where
  "in_loop_body s = list_ex at_body (threads s)"

text \<open>Every thread the stream has launched has finished.\<close>

definition no_live_thread :: "CameraStream \<Rightarrow> bool" where
  "no_live_thread s = list_all finished (threads s)"

text \<open>
  The stream runs, no thread of it is still opening the device and no shutdown was
  asked for.
\<close>

definition steady :: "CameraStream \<Rightarrow> bool" where
  "steady s = (is_running s \<and> \<not> still_opening s \<and> \<not> shutdown_event s)"

text \<open>\<open>1.0 / self.fps\<close> does not raise.\<close>

definition valid_fps :: "CameraStream \<Rightarrow> bool" where
  "valid_fps s = (case frame_interval s of Inl err \<Rightarrow> False | Inr fi \<Rightarrow> True)"

text \<open>
  What \<open>start\<close> returns when thread \<open>n\<close> is the only live one: whether its first step
  within the sleep finds the device open and gets its frame interval.
\<close>

definition opens_in_time :: "nat \<Rightarrow> env_input list \<Rightarrow> CameraStream \<Rightarrow> bool" where
  "opens_in_time n es s =
     (case find (\<lambda>e. tid e = n) es of
        None \<Rightarrow> False
      | Some e \<Rightarrow> cap_open e = Opened \<and> valid_fps s)"

text \<open>
  The step \<open>e\<close> is a loop body that gets past the rate limit, finds \<open>self.cap\<close> set and
  whose \<open>cap.read()\<close> returns a frame.
\<close>

definition captures :: "env_input \<Rightarrow> CameraStream \<Rightarrow> bool" where
  "captures e s =
     (if tid e < length (threads s)
      then case threads s ! tid e of
             LoopBody fi \<Rightarrow>
               \<not> clock e - last_frame_time s < fi \<and> cap s \<noteq> None
               \<and> (case cap_read e of ReadOk f \<Rightarrow> True | _ \<Rightarrow> False)
           | _ \<Rightarrow> False
      else False)"

subsection \<open>Concrete configurations and inputs\<close>

definition ex_cfg :: camera_config where
  "ex_cfg = \<lparr> cfg_id = 1, cfg_camera_name = ''door'', cfg_stream_url = ''0'',
              cfg_fps = Some 30 \<rparr>"

definition ex_cfg2 :: camera_config where
  "ex_cfg2 = \<lparr> cfg_id = 2, cfg_camera_name = ''gate'',
               cfg_stream_url = ''rtsp://10.0.0.2/live'', cfg_fps = Some 15 \<rparr>"

text \<open>A configuration whose fps column is zero.\<close>

definition ex_cfg0 :: camera_config where
  "ex_cfg0 = \<lparr> cfg_id = 3, cfg_camera_name = ''yard'', cfg_stream_url = ''2'',
               cfg_fps = Some 0 \<rparr>"

text \<open>Inputs for thread \<open>i\<close> at time \<open>t\<close>.\<close>

definition env_frame :: "nat \<Rightarrow> rat \<Rightarrow> frame \<Rightarrow> env_input" where
  "env_frame i t f = \<lparr> tid = i, cap_open = Opened, clock = t, cap_read = ReadOk f \<rparr>"

definition env_no_frame :: "nat \<Rightarrow> rat \<Rightarrow> env_input" where
  "env_no_frame i t = \<lparr> tid = i, cap_open = Opened, clock = t, cap_read = ReadFailed \<rparr>"

definition env_no_device :: "nat \<Rightarrow> rat \<Rightarrow> env_input" where
  "env_no_device i t =
     \<lparr> tid = i, cap_open = NotOpened, clock = t, cap_read = ReadFailed \<rparr>"

text \<open>No thread moves during any join.\<close>

definition no_progress :: "int \<Rightarrow> env_input list" where
  "no_progress cid = []"

text \<open>A registry that knows camera 1, never started.\<close>

definition ex_manager :: CameraManager where
  "ex_manager =
     \<lparr> streams = [(1, CameraStream_init ex_cfg)], discarded = [], trace = [] \<rparr>"

text \<open>
  Camera 1 after a \<open>start\<close> during whose sleep the thread opened the device, passed
  the loop test and stored one frame.
\<close>

definition ex_capturing :: CameraStream where
  "ex_capturing =
     snd (start [env_frame 0 100 [], env_frame 0 100 [], env_frame 0 100 [7, 7]]
            (CameraStream_init ex_cfg))"

definition ex_running_manager :: CameraManager where
  "ex_running_manager = \<lparr> streams = [(1, ex_capturing)], discarded = [], trace = [] \<rparr>"

text \<open>
  Camera 1 after a \<open>start\<close> during whose sleep the thread did not come back from
  \<open>cv2.VideoCapture\<close>: \<open>start\<close> returned \<open>False\<close> and the thread is alive.
\<close>

definition ex_opening :: CameraStream where
  "ex_opening = snd (start [] (CameraStream_init ex_cfg))"

definition ex_opening_manager :: CameraManager where
  "ex_opening_manager = \<lparr> streams = [(1, ex_opening)], discarded = [], trace = [] \<rparr>"

section \<open>Properties\<close>

lemmas ex_defs = ex_cfg_def ex_cfg2_def ex_cfg0_def env_frame_def env_no_frame_def
  env_no_device_def no_progress_def ex_manager_def ex_capturing_def ex_running_manager_def
  ex_opening_def ex_opening_manager_def CameraManager_init_def CameraStream_init_def

lemmas step_defs = worker_step_def worker_open_def loop_body_def cleanup_def set_thread_def
  frame_interval_def

lemmas stream_defs = start_def stop_def step_defs self_thread_def is_alive_def
  get_latest_frame_def

lemmas manager_defs = with_lock_def load_camera_configs_def add_stream_def
  initialize_cameras_def start_stream_def start_camera_def stop_camera_def
  stop_all_cameras_def get_camera_frame_def get_camera_status_def is_camera_running_def
  refresh_camera_configs_def thread_progress_def known_ids_def

subsection \<open>Runs of the threads\<close>

text \<open>What every step keeps, every run and every join keep.\<close>

lemma run_worker_invariant:
  assumes "\<And>e s. P s \<Longrightarrow> P (worker_step e s)" and "P s"
  shows "P (run_worker es s)"
  using assms(2)
proof (induction es arbitrary: s)
  case Nil
  then show ?case by simp
next
  case (Cons e es)
  from Cons.IH [OF assms(1) [OF Cons.prems]] show ?case by simp
qed

lemma join_worker_invariant:
  assumes "\<And>e s. P s \<Longrightarrow> P (worker_step e s)" and "P s"
  shows "P (join_worker es s)"
  using assms(2)
proof (induction es arbitrary: s)
  case Nil
  then show ?case by simp
next
  case (Cons e es)
  from Cons.IH [OF assms(1) [OF Cons.prems]] Cons.prems show ?case by simp
qed

lemma list_all_update: "list_all P xs \<Longrightarrow> P t \<Longrightarrow> list_all P (xs[i := t])"
  using set_update_subset_insert [of xs i t] by (auto simp: list_all_iff)

lemma list_ex_update: "\<not> list_ex P xs \<Longrightarrow> \<not> P t \<Longrightarrow> \<not> list_ex P (xs[i := t])"
  using set_update_subset_insert [of xs i t] by (auto simp: list_ex_iff)

lemma list_ex_nth: "\<not> list_ex P xs \<Longrightarrow> i < length xs \<Longrightarrow> \<not> P (xs ! i)"
  by (auto simp: list_ex_iff)

text \<open>Which fields the parts of a step write.\<close>

lemma set_thread_fields [simp]:
  "threads (set_thread i t s) = (threads s)[i := t]"
  "is_running (set_thread i t s) = is_running s"
  "shutdown_event (set_thread i t s) = shutdown_event s"
  "cap (set_thread i t s) = cap s"
  "latest_frame (set_thread i t s) = latest_frame s"
  "frames_captured (set_thread i t s) = frames_captured s"
  "last_frame_time (set_thread i t s) = last_frame_time s"
  "fps (set_thread i t s) = fps s"
  by (simp_all add: set_thread_def)

lemma cleanup_fields [simp]:
  "threads (cleanup s) = threads s"
  "is_running (cleanup s) = False"
  "shutdown_event (cleanup s) = shutdown_event s"
  "cap (cleanup s) = None"
  "latest_frame (cleanup s) = latest_frame s"
  "frames_captured (cleanup s) = frames_captured s"
  "last_frame_time (cleanup s) = last_frame_time s"
  "fps (cleanup s) = fps s"
  by (simp_all add: cleanup_def)

lemma loop_body_fields [simp]:
  "threads (loop_body fi e s) = threads s"
  "is_running (loop_body fi e s) = is_running s"
  "shutdown_event (loop_body fi e s) = shutdown_event s"
  "cap (loop_body fi e s) = cap s"
  "fps (loop_body fi e s) = fps s"
  by (simp_all add: loop_body_def split: option.splits read_outcome.splits)

lemma worker_open_fields [simp]:
  "shutdown_event (worker_open e s) = shutdown_event s"
  "latest_frame (worker_open e s) = latest_frame s"
  "frames_captured (worker_open e s) = frames_captured s"
  "last_frame_time (worker_open e s) = last_frame_time s"
  "fps (worker_open e s) = fps s"
  by (simp_all add: worker_open_def Let_def split: open_outcome.splits sum.splits)

lemma worker_step_shutdown_event [simp]: "shutdown_event (worker_step e s) = shutdown_event s"
  by (simp add: worker_step_def split: thread_state.splits)

lemma worker_step_fps [simp]: "fps (worker_step e s) = fps s"
  by (simp add: worker_step_def split: thread_state.splits)

text \<open>A step leaves the threads alone or moves the one it names, never back to the start.\<close>

lemma threads_worker_step:
  "threads (worker_step e s) = threads s
   \<or> (\<exists>t. \<not> at_open t \<and> threads (worker_step e s) = (threads s)[tid e := t])"
  by (auto simp: worker_step_def worker_open_def Let_def at_open_def
      split: thread_state.splits open_outcome.splits sum.splits)

subsection \<open>Status snapshots\<close>

lemma worker_step_uncaptured:
  "frames_captured s = 0 \<longrightarrow> last_frame_time s = 0 \<Longrightarrow>
   frames_captured (worker_step e s) = 0 \<longrightarrow> last_frame_time (worker_step e s) = 0"
  by (simp add: worker_step_def loop_body_def
      split: thread_state.splits option.splits read_outcome.splits)

lemma reachable_uncaptured:
  "reachable s \<Longrightarrow> frames_captured s = 0 \<longrightarrow> last_frame_time s = 0"
proof (induction rule: reachable.induct)
  case (reach_init c)
  then show ?case by (simp add: CameraStream_init_def)
next
  case (reach_step s e)
  from reach_step.IH show ?case by (rule worker_step_uncaptured)
next
  case (reach_start s es)
  let ?s1 = "s\<lparr>shutdown_event := False, threads := threads s @ [AtOpen]\<rparr>"
  have "frames_captured ?s1 = 0 \<longrightarrow> last_frame_time ?s1 = 0"
    using reach_start.IH by simp
  then have "frames_captured (run_worker es ?s1) = 0 \<longrightarrow> last_frame_time (run_worker es ?s1) = 0"
    by (rule run_worker_invariant [rotated]) (rule worker_step_uncaptured)
  with reach_start.IH show ?case
    by (simp add: start_def Let_def)
next
  case (reach_stop s es)
  let ?s1 = "s\<lparr>shutdown_event := True\<rparr>"
  have "frames_captured ?s1 = 0 \<longrightarrow> last_frame_time ?s1 = 0"
    using reach_stop.IH by simp
  then have "frames_captured (join_worker es ?s1) = 0 \<longrightarrow> last_frame_time (join_worker es ?s1) = 0"
    by (rule join_worker_invariant [rotated]) (rule worker_step_uncaptured)
  with reach_stop.IH show ?case
    by (simp add: stop_def Let_def split: prod.splits if_splits)
qed

lemma py_round2_zero: "py_round2 0 = 0"
  by (simp add: py_round2_def round_half_even_def)

text \<open>
  Claim C9. \<open>get_stream_info\<close> returns a snapshot in every state of the worker and for
  every pair of clock readings: it never takes the branch of the division by zero.
  The uptime is \<open>0\<close> when the start time is absent, the actual fps is \<open>0\<close> whenever the
  uptime is not positive and the rounded quotient otherwise, and the last-frame age is
  absent whenever the last frame time is not positive, which is the case in every
  reachable state in which no frame was captured.
\<close>

theorem get_stream_info_total:
  "\<exists>info. get_stream_info now1 now2 s = Inr info
     \<and> uptime_seconds info = uptime_of now1 s
     \<and> (start_time s = None \<longrightarrow> uptime_seconds info = 0)
     \<and> (uptime_of now1 s \<le> 0 \<longrightarrow> actual_fps info = 0)
     \<and> (0 < uptime_of now1 s \<longrightarrow>
          actual_fps info = py_round2 (of_nat (frames_captured s) / uptime_of now1 s))
     \<and> (last_frame_time s \<le> 0 \<longrightarrow> last_frame_age info = None)
     \<and> (reachable s \<and> frames_captured s = 0 \<longrightarrow> last_frame_age info = None)"
  using reachable_uncaptured [of s]
  by (auto simp: get_stream_info_def py_div_def Let_def py_round2_zero uptime_of_def
      split: option.splits)

theorem get_stream_info_total_witness:
  "get_stream_info 100 101 (CameraStream_init ex_cfg) =
     Inr \<lparr> info_camera_id = 1, info_camera_name = ''door'', info_is_running = False,
           info_frames_captured = 0, uptime_seconds = 0, actual_fps = 0,
           configured_fps = Some 30, last_frame_age = None \<rparr>"
  using get_stream_info_total [of 100 101 "CameraStream_init ex_cfg"] reach_init [of ex_cfg]
  by (simp add: get_stream_info_def CameraStream_init_def ex_cfg_def uptime_of_def
      py_round2_zero)

subsection \<open>The registry lock and the dictionary\<close>

lemma fst_with_lock:
  "fst (with_lock body m) = fst (body (m\<lparr>trace := trace m @ [LockAcquire]\<rparr>))"
  by (simp add: with_lock_def split: prod.splits)

lemma streams_with_lock:
  "streams (snd (with_lock body m)) =
     streams (snd (body (m\<lparr>trace := trace m @ [LockAcquire]\<rparr>)))"
  by (simp add: with_lock_def split: prod.splits)

lemma discarded_with_lock:
  "discarded (snd (with_lock body m)) =
     discarded (snd (body (m\<lparr>trace := trace m @ [LockAcquire]\<rparr>)))"
  by (simp add: with_lock_def split: prod.splits)

lemma trace_with_lock:
  "trace (snd (with_lock body m)) =
     trace (snd (body (m\<lparr>trace := trace m @ [LockAcquire]\<rparr>))) @ [LockRelease]"
  by (simp add: with_lock_def split: prod.splits)

lemma find_cfg_None:
  "find (\<lambda>c. cfg_id c = cid) cfgs = None \<longleftrightarrow> cid \<notin> cfg_id ` set cfgs"
  by (auto simp: find_None_iff)

lemma unknown_lookup: "cid \<notin> known_ids m \<Longrightarrow> map_of (streams m) cid = None"
  by (simp add: known_ids_def map_of_eq_None_iff)

subsection \<open>Concrete states\<close>

lemma ex_capturing_eq:
  "ex_capturing =
  \<lparr> camera_id = 1, camera_name = ''door'', stream_url = ''0'', fps = Some 30,
    is_running = True, cap = Some VideoCapture, threads = [LoopHead (1 / 30)],
    shutdown_event = False, latest_frame = Some [7, 7], frame_timestamp = 100,
    frames_captured = 1, start_time = Some 100, last_frame_time = 100 \<rparr>"
  by (simp add: ex_defs stream_defs)

lemma ex_opening_eq:
  "ex_opening =
  \<lparr> camera_id = 1, camera_name = ''door'', stream_url = ''0'', fps = Some 30,
    is_running = False, cap = None, threads = [AtOpen],
    shutdown_event = False, latest_frame = None, frame_timestamp = 0,
    frames_captured = 0, start_time = None, last_frame_time = 0 \<rparr>"
  by (simp add: ex_defs stream_defs)

subsection \<open>Starting an unknown camera\<close>

text \<open>
  Claim C5. When \<open>cid\<close> is neither a key of \<open>self.streams\<close> nor the id of a
  configuration of the fresh pull, \<open>start_camera\<close> returns \<open>False\<close> and the
  dictionary is the one it was: no stream is constructed or inserted, and the set of
  known ids is unchanged.
\<close>

theorem start_camera_unknown:
  assumes "cid \<notin> known_ids m" and "cid \<notin> cfg_id ` set (load_camera_configs db)"
  shows "fst (start_camera db during_sleep cid m) = False
       \<and> streams (snd (start_camera db during_sleep cid m)) = streams m
       \<and> known_ids (snd (start_camera db during_sleep cid m)) = known_ids m"
proof -
  from assms(1) have "map_of (streams m) cid = None"
    by (rule unknown_lookup)
  moreover from assms(2) have "find (\<lambda>c. cfg_id c = cid) (load_camera_configs db) = None"
    by (simp add: find_cfg_None)
  ultimately show ?thesis
    by (simp add: start_camera_def fst_with_lock streams_with_lock known_ids_def)
qed

theorem start_camera_unknown_witness:
  "99 \<notin> known_ids ex_manager \<and> 99 \<notin> cfg_id ` set (load_camera_configs (Inr [ex_cfg]))
   \<and> fst (start_camera (Inr [ex_cfg]) [env_frame 0 100 []] 99 ex_manager) = False
   \<and> known_ids (snd (start_camera (Inr [ex_cfg]) [env_frame 0 100 []] 99 ex_manager)) = {1}"
proof -
  have h1: "99 \<notin> known_ids ex_manager"
    by (simp add: known_ids_def ex_defs)
  have h2: "99 \<notin> cfg_id ` set (load_camera_configs (Inr [ex_cfg]))"
    by (simp add: load_camera_configs_def ex_defs)
  have "known_ids ex_manager = {1}"
    by (simp add: known_ids_def ex_defs)
  with h1 h2 start_camera_unknown [OF h1 h2, of "[env_frame 0 100 []]"] show ?thesis
    by simp
qed

subsection \<open>Stopping\<close>


lemma stop_not_running_after: "\<not> is_running (snd (snd (stop es s)))"
  by (simp add: stop_def Let_def split: prod.splits)


lemma map_of_stop_camera:
  "map_of (streams (snd (stop_camera es cid m))) cid =
     map_option (\<lambda>s. snd (snd (stop es s))) (map_of (streams m) cid)"
  by (simp add: stop_camera_def streams_with_lock update_conv' case_prod_beta
      split: option.splits)

lemma worker_step_not_opening: "\<not> still_opening s \<Longrightarrow> \<not> still_opening (worker_step e s)"
  using threads_worker_step [of e s] by (auto simp: still_opening_def list_ex_update)

lemma worker_step_stopped:
  assumes "\<not> is_running s \<and> \<not> still_opening s"
  shows "\<not> is_running (worker_step e s) \<and> \<not> still_opening (worker_step e s)"
proof -
  have "\<not> is_running (worker_step e s)"
  proof (cases "tid e < length (threads s)")
    case True
    with assms have "\<not> at_open (threads s ! tid e)"
      by (simp add: still_opening_def list_ex_nth)
    with assms True show ?thesis
      by (simp add: worker_step_def at_open_def split: thread_state.splits)
  next
    case False
    with assms show ?thesis by (simp add: worker_step_def)
  qed
  with assms worker_step_not_opening [of s e] show ?thesis by simp
qed


lemma map_of_thread_progress:
  "map_of (streams (thread_progress es cid m)) cid =
     map_option (run_worker es) (map_of (streams m) cid)"
  by (simp add: thread_progress_def update_conv' split: option.splits)



text \<open>
  Without the condition on the threads the last part fails: a thread that an earlier
  \<open>start\<close> left inside \<open>cv2.VideoCapture\<close> sets the running flag when it comes back,
  also after a \<open>stop\<close>.
\<close>

lemma stop_then_older_thread_opens:
  "fst (stop_camera [] 1
     (thread_progress [env_frame 0 103 []] 1
        (snd (stop_camera [env_frame 1 102 []] 1
           (snd (start_camera (Inr [ex_cfg]) [env_frame 1 101 []] 1 ex_opening_manager))))))"
  by (simp add: manager_defs stream_defs ex_defs)

subsection \<open>The registry lock during a join\<close>

lemma stop_events:
  "fst (snd (stop es s)) =
     (if is_running s \<and> is_alive (self_thread s) then [ThreadJoin (camera_id s)] else [])"
  by (simp add: stop_def Let_def case_prod_beta self_thread_def)

lemma trace_stop_camera:
  "trace (snd (stop_camera es cid m)) =
     trace m @ LockAcquire #
       (case map_of (streams m) cid of
          None \<Rightarrow> []
        | Some s \<Rightarrow>
            if is_running s \<and> is_alive (self_thread s) then [ThreadJoin (camera_id s)] else [])
       @ [LockRelease]"
  by (simp add: stop_camera_def trace_with_lock case_prod_beta stop_events
      split: option.splits)

lemma emitted_stop_camera:
  "emitted (stop_camera es cid) m =
     LockAcquire #
       (case map_of (streams m) cid of
          None \<Rightarrow> []
        | Some s \<Rightarrow>
            if is_running s \<and> is_alive (self_thread s) then [ThreadJoin (camera_id s)] else [])
       @ [LockRelease]"
  by (simp add: emitted_def trace_stop_camera)

lemma stop_each_joins:
  "fst (snd (stop_each joins ss)) =
     concat (map (\<lambda>(cid, s). if is_running s \<and> is_alive (self_thread s)
                               then [ThreadJoin (camera_id s)] else []) ss)"
  by (induction ss) (auto simp: case_prod_beta Let_def stop_events)

lemma stop_each_events:
  "list_all (\<lambda>e. \<exists>c. e = ThreadJoin c) (fst (snd (stop_each joins ss)))"
  by (induction ss) (auto simp: case_prod_beta Let_def stop_events)

lemma lock_depth_joins_prefix:
  "list_all (\<lambda>e. \<exists>c. e = ThreadJoin c) js \<Longrightarrow>
   lock_depth_at_joins d (js @ rest) = replicate (length js) d @ lock_depth_at_joins d rest"
  by (induction js) auto

lemma emitted_stop_all_cameras:
  "emitted (stop_all_cameras joins) m =
     LockAcquire # fst (snd (stop_each joins (streams m))) @ [LockRelease]"
  by (simp add: emitted_def stop_all_cameras_def trace_with_lock case_prod_beta)

lemma trace_add_streams: "trace (foldl add_stream m cfgs) = trace m"
  by (induction cfgs arbitrary: m) (simp_all add: add_stream_def)

lemma emitted_refresh:
  "emitted (refresh_camera_configs db joins) m =
     LockAcquire # LockAcquire # fst (snd (stop_each joins (streams m)))
       @ [LockRelease, LockAcquire, LockRelease, LockRelease]"
  by (simp add: emitted_def refresh_camera_configs_def stop_all_cameras_def
      initialize_cameras_def trace_with_lock case_prod_beta Let_def trace_add_streams)

lemma emitted_refresh_joins:
  "emitted (refresh_camera_configs db joins) m =
     LockAcquire # LockAcquire #
       concat (map (\<lambda>(cid, s). if is_running s \<and> is_alive (self_thread s)
                                 then [ThreadJoin (camera_id s)] else []) (streams m))
       @ [LockRelease, LockAcquire, LockRelease, LockRelease]"
  by (simp add: emitted_refresh stop_each_joins)

text \<open>
  Claim C1, as the code has it. \<open>stop_camera\<close> calls \<open>stop\<close> inside
  \<open>with self.manager_lock\<close>: what it appends to the trace starts with the
  acquisition and ends with the release, and when \<open>stop\<close> joins the thread (the
  stream is running and its thread is alive) the join lies between them, with the
  lock held once. The joins of \<open>stop_all_cameras\<close> are made with the lock held once
  as well, those of \<open>refresh_camera_configs\<close> with the lock held twice.
\<close>

theorem stop_camera_joins_under_lock:
  "lock_depth_at_joins 0 (emitted (stop_camera during_join cid) m) =
     (if stop_joins cid m then [1] else [])
   \<and> joins_outside_lock (emitted (stop_camera during_join cid) m) = (\<not> stop_joins cid m)
   \<and> hd (emitted (stop_camera during_join cid) m) = LockAcquire
   \<and> last (emitted (stop_camera during_join cid) m) = LockRelease
   \<and> length (emitted (stop_camera during_join cid) m) = (if stop_joins cid m then 3 else 2)
   \<and> list_all (\<lambda>d. d = 1) (lock_depth_at_joins 0 (emitted (stop_all_cameras joins) m))
   \<and> list_all (\<lambda>d. d = 2)
        (lock_depth_at_joins 0 (emitted (refresh_camera_configs db joins) m))"
proof -
  have "list_all (\<lambda>d. d = 1) (lock_depth_at_joins 0 (emitted (stop_all_cameras joins) m))"
    by (simp add: emitted_stop_all_cameras lock_depth_joins_prefix [OF stop_each_events]
        list_all_length)
  moreover have "list_all (\<lambda>d. d = 2)
      (lock_depth_at_joins 0 (emitted (refresh_camera_configs db joins) m))"
    by (simp add: emitted_refresh lock_depth_joins_prefix [OF stop_each_events]
        list_all_length)
  ultimately show ?thesis
    by (simp add: emitted_stop_camera stop_joins_def joins_outside_lock_def
        split: option.splits)
qed

theorem stop_camera_joins_under_lock_witness:
  "stop_joins 1 ex_running_manager
   \<and> emitted (stop_camera [env_frame 0 101 []] 1) ex_running_manager =
       [LockAcquire, ThreadJoin 1, LockRelease]
   \<and> lock_depth_at_joins 0 (emitted (stop_camera [env_frame 0 101 []] 1) ex_running_manager)
       = [1]
   \<and> \<not> stop_joins 1 ex_manager
   \<and> lock_depth_at_joins 0 (emitted (stop_camera [] 1) ex_manager) = []
   \<and> lock_depth_at_joins 0 (emitted (stop_all_cameras no_progress) ex_running_manager) = [1]
   \<and> lock_depth_at_joins 0
        (emitted (refresh_camera_configs (Inr [ex_cfg]) no_progress) ex_running_manager) = [2]"
proof -
  have j: "stop_joins 1 ex_running_manager"
    by (simp add: stop_joins_def ex_running_manager_def ex_capturing_eq is_alive_def
        self_thread_def)
  have n: "\<not> stop_joins 1 ex_manager"
    by (simp add: stop_joins_def ex_defs)
  have e: "emitted (stop_camera [env_frame 0 101 []] 1) ex_running_manager =
       [LockAcquire, ThreadJoin 1, LockRelease]"
    by (simp add: emitted_stop_camera ex_running_manager_def ex_capturing_eq is_alive_def
        self_thread_def)
  have a: "lock_depth_at_joins 0
      (emitted (stop_all_cameras no_progress) ex_running_manager) = [1]"
    by (simp add: emitted_stop_all_cameras stop_each_joins ex_running_manager_def
        ex_capturing_eq is_alive_def self_thread_def del: stop_each.simps)
  have r: "lock_depth_at_joins 0
      (emitted (refresh_camera_configs (Inr [ex_cfg]) no_progress) ex_running_manager) = [2]"
    by (simp add: emitted_refresh stop_each_joins ex_running_manager_def ex_capturing_eq
        is_alive_def self_thread_def del: stop_each.simps)
  from j n e a r stop_camera_joins_under_lock
      [of "[env_frame 0 101 []]" 1 ex_running_manager no_progress "Inr [ex_cfg]"]
    stop_camera_joins_under_lock [of "[]" 1 ex_manager no_progress "Inr [ex_cfg]"]
  show ?thesis by simp
qed

text \<open>
  The claim as written fails: stopping the running camera 1 joins its thread while
  the registry lock is held.
\<close>

theorem stop_camera_lock_counterexample:
  "\<not> joins_outside_lock (emitted (stop_camera [env_frame 0 101 []] 1) ex_running_manager)"
  by (simp add: emitted_stop_camera joins_outside_lock_def ex_running_manager_def
      ex_capturing_eq is_alive_def self_thread_def)

subsection \<open>Refreshing the registry\<close>

lemma map_of_add_stream:
  "map_of (streams (add_stream m c)) cid =
     (case map_of (streams m) cid of
        Some s \<Rightarrow> Some s
      | None \<Rightarrow> if cfg_id c = cid then Some (CameraStream_init c) else None)"
  by (auto simp: add_stream_def update_conv' split: option.splits)

lemma map_of_add_streams:
  "map_of (streams (foldl add_stream m cfgs)) cid =
     (case map_of (streams m) cid of
        Some s \<Rightarrow> Some s
      | None \<Rightarrow> map_option CameraStream_init (find (\<lambda>c. cfg_id c = cid) cfgs))"
proof (induction cfgs arbitrary: m)
  case Nil
  then show ?case by (simp split: option.splits)
next
  case (Cons c cfgs)
  show ?case
    by (simp add: Cons.IH map_of_add_stream split: option.splits)
qed

lemma known_ids_add_streams:
  "known_ids (foldl add_stream m cfgs) = known_ids m \<union> cfg_id ` set cfgs"
proof (induction cfgs arbitrary: m)
  case Nil
  then show ?case by simp
next
  case (Cons c cfgs)
  have "known_ids (add_stream m c) = insert (cfg_id c) (known_ids m)"
    by (auto simp: add_stream_def known_ids_def dom_update map_of_eq_None_iff)
  then show ?case by (simp add: Cons.IH)
qed

lemma streams_add_streams_cong:
  "streams m = streams m' \<Longrightarrow>
   streams (foldl add_stream m cfgs) = streams (foldl add_stream m' cfgs)"
proof (induction cfgs arbitrary: m m')
  case Nil
  then show ?case by simp
next
  case (Cons c cfgs)
  from Cons.prems have "streams (add_stream m c) = streams (add_stream m' c)"
    by (simp add: add_stream_def)
  from Cons.IH [OF this] show ?case by simp
qed

lemma distinct_add_streams:
  "distinct (map fst (streams m)) \<Longrightarrow> distinct (map fst (streams (foldl add_stream m cfgs)))"
proof (induction cfgs arbitrary: m)
  case Nil
  then show ?case by simp
next
  case (Cons c cfgs)
  from Cons.prems have "distinct (map fst (streams (add_stream m c)))"
    by (simp add: add_stream_def distinct_update)
  from Cons.IH [OF this] show ?case by simp
qed

lemma discarded_add_streams: "discarded (foldl add_stream m cfgs) = discarded m"
  by (induction cfgs arbitrary: m) (simp_all add: add_stream_def)

lemma stop_each_streams:
  "snd (snd (stop_each joins ss)) = map (\<lambda>(cid, s). (cid, snd (snd (stop (joins cid) s)))) ss"
  by (induction ss) (auto simp: case_prod_beta Let_def)

lemma refresh_body:
  "fst (refresh_camera_configs db joins m) = (load_camera_configs db \<noteq> [])"
  "streams (snd (refresh_camera_configs db joins m)) =
     streams (foldl add_stream CameraManager_init (load_camera_configs db))"
  "discarded (snd (refresh_camera_configs db joins m)) =
     discarded m @ map (\<lambda>(cid, s). (cid, snd (snd (stop (joins cid) s)))) (streams m)"
  by (auto simp add: refresh_camera_configs_def initialize_cameras_def stop_all_cameras_def
      fst_with_lock streams_with_lock discarded_with_lock case_prod_beta Let_def
      CameraManager_init_def discarded_add_streams stop_each_streams
      intro!: streams_add_streams_cong)

text \<open>What \<open>stop\<close> does to a stream, by its running flag.\<close>

lemma stop_cases:
  "\<not> is_running (snd (snd (stop es s)))"
  "is_running s \<Longrightarrow> shutdown_event (snd (snd (stop es s)))"
  "\<not> is_running s \<Longrightarrow> snd (snd (stop es s)) = s"
proof -
  show "\<not> is_running (snd (snd (stop es s)))"
    by (rule stop_not_running_after)
  show "\<not> is_running s \<Longrightarrow> snd (snd (stop es s)) = s"
    by (simp add: stop_def)
  assume r: "is_running s"
  have "shutdown_event (s\<lparr>shutdown_event := True\<rparr>)" by simp
  then have "shutdown_event (join_worker es (s\<lparr>shutdown_event := True\<rparr>))"
    by (rule join_worker_invariant [rotated]) simp
  with r show "shutdown_event (snd (snd (stop es s)))"
    by (simp add: stop_def Let_def case_prod_beta)
qed

lemma refresh_fresh:
  assumes "(cid, s) \<in> set (streams (snd (refresh_camera_configs db joins m)))"
  shows "\<exists>c. find (\<lambda>c. cfg_id c = cid) (load_camera_configs db) = Some c
           \<and> s = CameraStream_init c \<and> cfg_id c = cid"
proof -
  let ?m' = "snd (refresh_camera_configs db joins m)"
  let ?cfgs = "load_camera_configs db"
  have st: "streams ?m' = streams (foldl add_stream CameraManager_init ?cfgs)"
    by (rule refresh_body)
  have "distinct (map fst (streams ?m'))"
    unfolding st by (rule distinct_add_streams) (simp add: CameraManager_init_def)
  with assms have "map_of (streams ?m') cid = Some s" by simp
  then have "map_option CameraStream_init (find (\<lambda>c. cfg_id c = cid) ?cfgs) = Some s"
    by (simp add: st map_of_add_streams CameraManager_init_def)
  then obtain c where c: "find (\<lambda>c. cfg_id c = cid) ?cfgs = Some c"
    and s: "s = CameraStream_init c" by (auto simp: map_option_case split: option.splits)
  from c have "cfg_id c = cid" by (auto simp: find_Some_iff)
  with c s show ?thesis by simp
qed

text \<open>
  Claim C4, as the code has it. When the fresh pull is not empty,
  \<open>refresh_camera_configs\<close> returns \<open>True\<close>; afterwards the known ids are exactly the
  ids of the pulled configurations, and the stream of each id is the one
  \<open>CameraStream\<close> constructs from the first pulled configuration with that id: zero
  frames captured, zero timestamps, no start time, no latest frame, not running, no
  thread. Every old stream is discarded, as \<open>stop\<close> has left it: its running flag is
  off; if the flag was on, the shutdown event is set; if the flag was off, \<open>stop\<close> has
  done nothing to it, so a thread of it that is still opening the device is not told
  to stop. The joins made are those of the old streams that were running with their
  last thread alive, one each, in the order of the dictionary.
\<close>

theorem refresh_nonempty:
  assumes "load_camera_configs db \<noteq> []"
  shows "fst (refresh_camera_configs db joins m) = True
       \<and> known_ids (snd (refresh_camera_configs db joins m)) = cfg_id ` set (load_camera_configs db)
       \<and> (\<forall>cid. map_of (streams (snd (refresh_camera_configs db joins m))) cid =
             map_option CameraStream_init (find (\<lambda>c. cfg_id c = cid) (load_camera_configs db)))
       \<and> (\<forall>(cid, s) \<in> set (streams (snd (refresh_camera_configs db joins m))).
             camera_id s = cid \<and> frames_captured s = 0 \<and> frame_timestamp s = 0
             \<and> last_frame_time s = 0 \<and> start_time s = None \<and> latest_frame s = None
             \<and> \<not> is_running s \<and> threads s = [])
       \<and> discarded (snd (refresh_camera_configs db joins m)) =
            discarded m @ map (\<lambda>(cid, s). (cid, snd (snd (stop (joins cid) s)))) (streams m)
       \<and> (\<forall>(cid, s) \<in> set (streams m).
             \<not> is_running (snd (snd (stop (joins cid) s)))
             \<and> (is_running s \<longrightarrow> shutdown_event (snd (snd (stop (joins cid) s))))
             \<and> (\<not> is_running s \<longrightarrow> snd (snd (stop (joins cid) s)) = s))
       \<and> emitted (refresh_camera_configs db joins) m =
            LockAcquire # LockAcquire #
              concat (map (\<lambda>(cid, s). if is_running s \<and> is_alive (self_thread s)
                                        then [ThreadJoin (camera_id s)] else []) (streams m))
              @ [LockRelease, LockAcquire, LockRelease, LockRelease]"
proof -
  let ?m' = "snd (refresh_camera_configs db joins m)"
  let ?cfgs = "load_camera_configs db"
  have st: "streams ?m' = streams (foldl add_stream CameraManager_init ?cfgs)"
    by (rule refresh_body)
  have ids: "known_ids ?m' = cfg_id ` set ?cfgs"
    using known_ids_add_streams [of CameraManager_init ?cfgs]
    by (simp add: known_ids_def st CameraManager_init_def)
  have look: "map_of (streams ?m') cid =
      map_option CameraStream_init (find (\<lambda>c. cfg_id c = cid) ?cfgs)" for cid
    by (simp add: st map_of_add_streams CameraManager_init_def)
  have fresh: "camera_id s = cid \<and> frames_captured s = 0 \<and> frame_timestamp s = 0
             \<and> last_frame_time s = 0 \<and> start_time s = None \<and> latest_frame s = None
             \<and> \<not> is_running s \<and> threads s = []"
    if "(cid, s) \<in> set (streams ?m')" for cid s
    using refresh_fresh [OF that] by (auto simp: CameraStream_init_def)
  from assms ids look fresh show ?thesis
    by (auto simp: refresh_body stop_cases emitted_refresh_joins)
qed

theorem refresh_nonempty_witness:
  "load_camera_configs (Inr [ex_cfg2, ex_cfg]) \<noteq> []
   \<and> known_ids ex_running_manager = {1}
   \<and> map_option frames_captured (map_of (streams ex_running_manager) 1) = Some 1
   \<and> fst (refresh_camera_configs (Inr [ex_cfg2, ex_cfg]) no_progress ex_running_manager)
   \<and> known_ids (snd (refresh_camera_configs (Inr [ex_cfg2, ex_cfg]) no_progress
        ex_running_manager)) = {1, 2}
   \<and> streams (snd (refresh_camera_configs (Inr [ex_cfg2, ex_cfg]) no_progress
        ex_running_manager)) = [(2, CameraStream_init ex_cfg2), (1, CameraStream_init ex_cfg)]
   \<and> discarded (snd (refresh_camera_configs (Inr [ex_cfg2, ex_cfg]) no_progress
        ex_running_manager)) = [(1, ex_capturing\<lparr>is_running := False, shutdown_event := True\<rparr>)]"
proof -
  have h: "load_camera_configs (Inr [ex_cfg2, ex_cfg]) \<noteq> []"
    by (simp add: load_camera_configs_def)
  have before: "known_ids ex_running_manager = {1}
      \<and> map_option frames_captured (map_of (streams ex_running_manager) 1) = Some 1"
    by (simp add: known_ids_def ex_running_manager_def ex_capturing_eq)
  have after: "streams (snd (refresh_camera_configs (Inr [ex_cfg2, ex_cfg]) no_progress
        ex_running_manager)) = [(2, CameraStream_init ex_cfg2), (1, CameraStream_init ex_cfg)]"
    by (simp add: refresh_body load_camera_configs_def add_stream_def CameraManager_init_def
        ex_cfg_def ex_cfg2_def)
  have old: "snd (snd (stop (no_progress 1) ex_capturing)) =
      ex_capturing\<lparr>is_running := False, shutdown_event := True\<rparr>"
    by (simp add: ex_capturing_eq stop_def no_progress_def self_thread_def is_alive_def)
  have ids: "cfg_id ` set (load_camera_configs (Inr [ex_cfg2, ex_cfg])) = {1, 2}"
    by (auto simp: load_camera_configs_def ex_cfg_def ex_cfg2_def)
  from h before after old ids
    refresh_nonempty [OF h, of no_progress ex_running_manager]
  show ?thesis
    by (simp add: ex_running_manager_def)
qed

text \<open>
  The claim as written fails in its last part: not every old worker is stopped. The
  worker of camera 1 whose thread is still inside \<open>cv2.VideoCapture\<close> is discarded as
  it is, with no shutdown asked for; when its thread comes back it sets the running
  flag of the discarded worker and captures.
\<close>

theorem refresh_nonempty_counterexample:
  "fst (refresh_camera_configs (Inr [ex_cfg]) no_progress ex_opening_manager)
   \<and> discarded (snd (refresh_camera_configs (Inr [ex_cfg]) no_progress ex_opening_manager))
       = [(1, ex_opening)]
   \<and> is_alive (self_thread ex_opening) \<and> \<not> shutdown_event ex_opening
   \<and> is_running
       (run_worker [env_frame 0 100 [], env_frame 0 100 [], env_frame 0 100 [7]] ex_opening)
   \<and> frames_captured
       (run_worker [env_frame 0 100 [], env_frame 0 100 [], env_frame 0 100 [7]] ex_opening)
       = 1"
proof -
  have "discarded (snd (refresh_camera_configs (Inr [ex_cfg]) no_progress ex_opening_manager))
      = [(1, ex_opening)]"
    by (simp add: refresh_body ex_opening_manager_def ex_opening_eq stop_def)
  moreover have "fst (refresh_camera_configs (Inr [ex_cfg]) no_progress ex_opening_manager)"
    by (simp add: refresh_body load_camera_configs_def)
  ultimately show ?thesis
    by (simp add: ex_opening_eq stream_defs env_frame_def)
qed

text \<open>
  Claim C10, as the code has it. When the pull raises (\<open>load_camera_configs\<close> turns
  that into the empty list) or returns the empty list, \<open>refresh_camera_configs\<close>
  returns \<open>False\<close> and the dictionary is left empty: the streams known before were
  passed to \<open>stop\<close> and cleared before the pull, and are not put back. Each is
  discarded as \<open>stop\<close> has left it: running flag off; shutdown event set if the flag
  was on; untouched if the flag was off. The joins made are those of the old streams
  that were running with their last thread alive.
\<close>

theorem refresh_empty:
  assumes "db = Inl err \<or> db = Inr []"
  shows "load_camera_configs db = []
       \<and> fst (refresh_camera_configs db joins m) = False
       \<and> streams (snd (refresh_camera_configs db joins m)) = []
       \<and> known_ids (snd (refresh_camera_configs db joins m)) = {}
       \<and> discarded (snd (refresh_camera_configs db joins m)) =
            discarded m @ map (\<lambda>(cid, s). (cid, snd (snd (stop (joins cid) s)))) (streams m)
       \<and> (\<forall>(cid, s) \<in> set (streams m).
             \<not> is_running (snd (snd (stop (joins cid) s)))
             \<and> (is_running s \<longrightarrow> shutdown_event (snd (snd (stop (joins cid) s))))
             \<and> (\<not> is_running s \<longrightarrow> snd (snd (stop (joins cid) s)) = s))
       \<and> emitted (refresh_camera_configs db joins) m =
            LockAcquire # LockAcquire #
              concat (map (\<lambda>(cid, s). if is_running s \<and> is_alive (self_thread s)
                                        then [ThreadJoin (camera_id s)] else []) (streams m))
              @ [LockRelease, LockAcquire, LockRelease, LockRelease]"
proof -
  from assms have "load_camera_configs db = []"
    by (auto simp: load_camera_configs_def)
  then show ?thesis
    by (auto simp: refresh_body known_ids_def CameraManager_init_def stop_cases
        emitted_refresh_joins)
qed

theorem refresh_empty_witness:
  "known_ids ex_running_manager = {1}
   \<and> fst (refresh_camera_configs (Inl DatabaseError) no_progress ex_running_manager) = False
   \<and> known_ids (snd (refresh_camera_configs (Inl DatabaseError) no_progress
        ex_running_manager)) = {}
   \<and> discarded (snd (refresh_camera_configs (Inl DatabaseError) no_progress
        ex_running_manager)) = [(1, ex_capturing\<lparr>is_running := False, shutdown_event := True\<rparr>)]
   \<and> fst (refresh_camera_configs (Inr []) no_progress ex_running_manager) = False
   \<and> known_ids (snd (refresh_camera_configs (Inr []) no_progress ex_running_manager)) = {}"
proof -
  have k: "known_ids ex_running_manager = {1}"
    by (simp add: known_ids_def ex_running_manager_def)
  have old: "snd (snd (stop (no_progress 1) ex_capturing)) =
      ex_capturing\<lparr>is_running := False, shutdown_event := True\<rparr>"
    by (simp add: ex_capturing_eq stop_def no_progress_def self_thread_def is_alive_def)
  from k old
    refresh_empty [of "Inl DatabaseError" DatabaseError no_progress ex_running_manager]
    refresh_empty [of "Inr []" DatabaseError no_progress ex_running_manager]
  show ?thesis by (simp add: ex_running_manager_def)
qed

text \<open>
  The claim as written fails in its last part: after a failed pull the registry is
  empty, and the old worker of camera 1, whose thread was still inside
  \<open>cv2.VideoCapture\<close>, was discarded without a shutdown signal; its thread then opens
  the device and the discarded worker runs.
\<close>

theorem refresh_empty_counterexample:
  "fst (refresh_camera_configs (Inl DatabaseError) no_progress ex_opening_manager) = False
   \<and> streams (snd (refresh_camera_configs (Inl DatabaseError) no_progress ex_opening_manager))
       = []
   \<and> discarded (snd (refresh_camera_configs (Inl DatabaseError) no_progress ex_opening_manager))
       = [(1, ex_opening)]
   \<and> is_alive (self_thread ex_opening) \<and> \<not> shutdown_event ex_opening
   \<and> is_running (run_worker [env_frame 0 100 []] ex_opening)"
proof -
  have "discarded (snd (refresh_camera_configs (Inl DatabaseError) no_progress
      ex_opening_manager)) = [(1, ex_opening)]"
    by (simp add: refresh_body ex_opening_manager_def ex_opening_eq stop_def)
  then show ?thesis
    by (simp add: refresh_body load_camera_configs_def CameraManager_init_def
        ex_opening_eq stream_defs env_frame_def)
qed

subsection \<open>The latest frame across a stop\<close>

lemma worker_step_latest:
  "latest_frame (worker_step e s) = latest_frame s
   \<or> (\<exists>g. cap_read e = ReadOk g \<and> latest_frame (worker_step e s) = Some g)"
  by (auto simp: worker_step_def loop_body_def
      split: thread_state.splits option.splits read_outcome.splits)

lemma join_worker_latest:
  "latest_frame (join_worker es s) = latest_frame s
   \<or> (\<exists>e \<in> set es. \<exists>g. cap_read e = ReadOk g \<and> latest_frame (join_worker es s) = Some g)"
proof (induction es arbitrary: s)
  case Nil
  then show ?case by simp
next
  case (Cons e es)
  from Cons.IH [of "worker_step e s"] worker_step_latest [of e s] show ?case
    by auto
qed

lemma worker_step_no_body:
  assumes "shutdown_event s \<and> \<not> in_loop_body s"
  shows "shutdown_event (worker_step e s) \<and> \<not> in_loop_body (worker_step e s)"
proof (cases "tid e < length (threads s)")
  case True
  with assms have "\<not> at_body (threads s ! tid e)"
    by (simp add: in_loop_body_def list_ex_nth)
  with assms True show ?thesis
    by (auto simp: worker_step_def worker_open_def Let_def in_loop_body_def at_body_def
        list_ex_update split: thread_state.splits open_outcome.splits sum.splits)
next
  case False
  with assms show ?thesis by (simp add: worker_step_def)
qed

lemma worker_step_no_body_latest:
  assumes "shutdown_event s \<and> \<not> in_loop_body s"
  shows "latest_frame (worker_step e s) = latest_frame s"
proof (cases "tid e < length (threads s)")
  case True
  with assms have "\<not> at_body (threads s ! tid e)"
    by (simp add: in_loop_body_def list_ex_nth)
  with True show ?thesis
    by (simp add: worker_step_def at_body_def split: thread_state.splits)
next
  case False
  then show ?thesis by (simp add: worker_step_def)
qed

lemma join_worker_no_body:
  "shutdown_event s \<and> \<not> in_loop_body s \<Longrightarrow> latest_frame (join_worker es s) = latest_frame s"
proof (induction es arbitrary: s)
  case Nil
  then show ?case by simp
next
  case (Cons e es)
  from Cons.IH [OF worker_step_no_body [OF Cons.prems, of e]]
    worker_step_no_body_latest [OF Cons.prems, of e]
  show ?case by simp
qed

lemma stop_latest:
  "latest_frame (snd (snd (stop es s))) = latest_frame s
   \<or> (\<exists>e \<in> set es. \<exists>g. cap_read e = ReadOk g \<and> latest_frame (snd (snd (stop es s))) = Some g)"
  using join_worker_latest [of es "s\<lparr>shutdown_event := True\<rparr>"]
  by (auto simp: stop_def Let_def case_prod_beta)

lemma stop_latest_same:
  assumes "\<not> in_loop_body s"
  shows "latest_frame (snd (snd (stop es s))) = latest_frame s"
proof -
  from assms have "shutdown_event (s\<lparr>shutdown_event := True\<rparr>)
      \<and> \<not> in_loop_body (s\<lparr>shutdown_event := True\<rparr>)"
    by (simp add: in_loop_body_def)
  from join_worker_no_body [OF this, of es] show ?thesis
    by (simp add: stop_def Let_def case_prod_beta)
qed

lemma fst_is_camera_running:
  "fst (is_camera_running cid m) =
     (case map_of (streams m) cid of None \<Rightarrow> False | Some s \<Rightarrow> is_running s)"
  by (simp add: is_camera_running_def fst_with_lock split: option.splits)

lemma fst_get_camera_frame:
  "fst (get_camera_frame cid m) =
     (case map_of (streams m) cid of None \<Rightarrow> None | Some s \<Rightarrow> latest_frame s)"
  by (simp add: get_camera_frame_def fst_with_lock get_latest_frame_def split: option.splits)

text \<open>
  Claim C7. Let the stream of \<open>cid\<close> hold a latest frame \<open>f\<close>. After \<open>stop_camera\<close>,
  whatever it returned, \<open>is_camera_running\<close> is \<open>False\<close> and \<open>get_camera_frame\<close> returns a
  frame: \<open>f\<close> itself, or the frame of a read that a thread completed during the
  join, which is then the last one captured. It is \<open>f\<close> whenever no thread was in
  the middle of a loop body when \<open>stop\<close> was called. \<open>stop\<close> itself writes the
  shutdown event and the running flag and nothing else.
\<close>

theorem stop_keeps_frame:
  assumes "map_of (streams m) cid = Some s" and "latest_frame s = Some f"
  shows "fst (is_camera_running cid (snd (stop_camera during_join cid m))) = False
       \<and> fst (get_camera_frame cid (snd (stop_camera during_join cid m))) \<noteq> None
       \<and> (fst (get_camera_frame cid (snd (stop_camera during_join cid m))) = Some f
            \<or> (\<exists>e \<in> set during_join. \<exists>g. cap_read e = ReadOk g
                 \<and> fst (get_camera_frame cid (snd (stop_camera during_join cid m))) = Some g))
       \<and> (\<not> in_loop_body s \<longrightarrow>
            fst (get_camera_frame cid (snd (stop_camera during_join cid m))) = Some f)
       \<and> fst (get_camera_frame cid (snd (stop_camera [] cid m))) = Some f
       \<and> snd (snd (stop [] s)) =
            (if is_running s then s\<lparr>shutdown_event := True, is_running := False\<rparr> else s)"
proof -
  have look: "map_of (streams (snd (stop_camera es cid m))) cid = Some (snd (snd (stop es s)))"
    for es
    using assms(1) by (simp add: map_of_stop_camera)
  have run: "fst (is_camera_running cid (snd (stop_camera during_join cid m))) = False"
    by (simp add: fst_is_camera_running look stop_not_running_after)
  have frame: "fst (get_camera_frame cid (snd (stop_camera es cid m))) =
      latest_frame (snd (snd (stop es s)))" for es
    by (simp add: fst_get_camera_frame look)
  have empty: "snd (snd (stop [] s)) =
      (if is_running s then s\<lparr>shutdown_event := True, is_running := False\<rparr> else s)"
    by (simp add: stop_def Let_def)
  from stop_latest [of during_join s] stop_latest_same [of s during_join] assms(2) run empty
  show ?thesis
    by (auto simp: frame)
qed

theorem stop_keeps_frame_witness:
  "map_of (streams ex_running_manager) 1 = Some ex_capturing
   \<and> latest_frame ex_capturing = Some [7, 7]
   \<and> fst (is_camera_running 1 ex_running_manager) = True
   \<and> fst (is_camera_running 1
        (snd (stop_camera [env_frame 0 101 [8]] 1 ex_running_manager))) = False
   \<and> fst (get_camera_frame 1 (snd (stop_camera [env_frame 0 101 [8]] 1 ex_running_manager)))
       = Some [7, 7]"
proof -
  have a: "map_of (streams ex_running_manager) 1 = Some ex_capturing"
    by (simp add: ex_running_manager_def)
  have b: "latest_frame ex_capturing = Some [7, 7]"
    by (simp add: ex_capturing_eq)
  have c: "\<not> in_loop_body ex_capturing"
    by (simp add: ex_capturing_eq in_loop_body_def at_body_def)
  have d: "fst (is_camera_running 1 ex_running_manager) = True"
    by (simp add: fst_is_camera_running a ex_capturing_eq)
  from a b c d stop_keeps_frame [OF a b, of "[env_frame 0 101 [8]]"] show ?thesis
    by simp
qed

subsection \<open>Starting\<close>

lemma finished_not_at_open: "list_all finished fs \<Longrightarrow> \<not> list_ex at_open fs"
  by (auto simp: list_all_iff list_ex_iff finished_def at_open_def split: thread_state.splits)

lemma worker_step_steady: "steady s \<Longrightarrow> steady (worker_step e s)"
proof -
  assume st: "steady s"
  have "is_running (worker_step e s)"
  proof (cases "tid e < length (threads s)")
    case True
    with st have "\<not> at_open (threads s ! tid e)"
      by (simp add: steady_def still_opening_def list_ex_nth)
    with st True show ?thesis
      by (simp add: worker_step_def steady_def at_open_def split: thread_state.splits)
  next
    case False
    with st show ?thesis by (simp add: worker_step_def steady_def)
  qed
  with st worker_step_not_opening [of s e] show ?thesis
    by (simp add: steady_def)
qed

lemma run_worker_steady: "steady s \<Longrightarrow> steady (run_worker es s)"
  by (rule run_worker_invariant [where P = steady]) (simp_all add: worker_step_steady)

lemma length_threads_worker_step: "length (threads (worker_step e s)) = length (threads s)"
  using threads_worker_step [of e s] by auto

lemma length_threads_run_worker: "length (threads (run_worker es s)) = length (threads s)"
  by (induction es arbitrary: s) (simp_all add: length_threads_worker_step)

text \<open>A stream whose only live thread was just launched.\<close>

lemma idle_step:
  assumes "threads x = fs @ [AtOpen]" and "list_all finished fs" and "tid e \<noteq> length fs"
  shows "worker_step e x = x"
proof (cases "tid e < length fs")
  case True
  with assms(2) have "finished (fs ! tid e)"
    by (simp add: list_all_length)
  with True assms(1) show ?thesis
    by (simp add: worker_step_def nth_append finished_def split: thread_state.splits)
next
  case False
  with assms(1,3) show ?thesis by (simp add: worker_step_def)
qed

lemma open_step:
  assumes "threads x = fs @ [AtOpen]" and "list_all finished fs" and "\<not> shutdown_event x"
    and "tid e = length fs"
  shows "worker_step e x = worker_open e x"
    and "cap_open e = Opened \<and> valid_fps x \<Longrightarrow> steady (worker_open e x)"
    and "\<not> (cap_open e = Opened \<and> valid_fps x) \<Longrightarrow>
           \<not> is_running (worker_open e x) \<and> \<not> still_opening (worker_open e x)"
proof -
  from assms(1,4) show "worker_step e x = worker_open e x"
    by (simp add: worker_step_def)
  note fin = finished_not_at_open [OF assms(2)]
  show "steady (worker_open e x)" if "cap_open e = Opened \<and> valid_fps x"
    using that assms(1,3,4) fin
    by (auto simp: worker_open_def Let_def steady_def still_opening_def valid_fps_def
        frame_interval_def at_open_def split: sum.splits option.splits if_splits)
  show "\<not> is_running (worker_open e x) \<and> \<not> still_opening (worker_open e x)"
    if "\<not> (cap_open e = Opened \<and> valid_fps x)"
    using that assms(1,3,4) fin
    by (auto simp: worker_open_def Let_def still_opening_def valid_fps_def
        frame_interval_def at_open_def split: open_outcome.splits sum.splits option.splits
        if_splits)
qed

lemma launch_run:
  assumes "threads x = fs @ [AtOpen]" and "list_all finished fs" and "\<not> shutdown_event x"
    and "\<not> is_running x"
  shows "is_running (run_worker es x) = opens_in_time (length fs) es x
       \<and> (is_running (run_worker es x) \<longrightarrow> steady (run_worker es x))"
proof (induction es)
  case Nil
  from assms(4) show ?case by (simp add: opens_in_time_def)
next
  case (Cons e es)
  show ?case
  proof (cases "tid e = length fs")
    case False
    from idle_step [OF assms(1,2) False] Cons.IH False show ?thesis
      by (simp add: opens_in_time_def)
  next
    case True
    note o = open_step [OF assms(1,2,3) True]
    show ?thesis
    proof (cases "cap_open e = Opened \<and> valid_fps x")
      case yes: True
      from run_worker_steady [OF o(2) [OF yes], of es] yes True show ?thesis
        by (simp add: o(1) opens_in_time_def steady_def)
    next
      case no: False
      from o(3) [OF no]
      have "\<not> is_running (run_worker es (worker_open e x))
          \<and> \<not> still_opening (run_worker es (worker_open e x))"
        by (rule run_worker_invariant [rotated]) (rule worker_step_stopped)
      with no True show ?thesis
        by (auto simp add: o(1) opens_in_time_def)
    qed
  qed
qed

lemma start_launch:
  assumes "\<not> is_running s" and "no_live_thread s"
  shows "fst (start es s) = opens_in_time (length (threads s)) es s"
    and "fst (start es s) \<Longrightarrow> steady (snd (start es s))"
    and "length (threads (snd (start es s))) = Suc (length (threads s))"
proof -
  let ?x = "s\<lparr>shutdown_event := False, threads := threads s @ [AtOpen]\<rparr>"
  have st: "start es s = (is_running (run_worker es ?x), run_worker es ?x)"
    using assms(1) by (simp add: start_def Let_def)
  have o: "opens_in_time n es ?x = opens_in_time n es s" for n
    by (simp add: opens_in_time_def valid_fps_def frame_interval_def split: option.splits)
  from assms have l: "is_running (run_worker es ?x) = opens_in_time (length (threads s)) es ?x
       \<and> (is_running (run_worker es ?x) \<longrightarrow> steady (run_worker es ?x))"
    by (intro launch_run) (simp_all add: no_live_thread_def)
  from l show "fst (start es s) = opens_in_time (length (threads s)) es s"
    by (simp add: st o)
  from l show "fst (start es s) \<Longrightarrow> steady (snd (start es s))"
    by (simp add: st)
  show "length (threads (snd (start es s))) = Suc (length (threads s))"
    by (simp add: st length_threads_run_worker)
qed

lemma start_running: "is_running s \<Longrightarrow> start es s = (False, s)"
  by (simp add: start_def)

lemma start_camera_known:
  assumes "map_of (streams m) cid = Some s"
  shows "fst (start_camera db es cid m) = fst (start es s)"
    and "map_of (streams (snd (start_camera db es cid m))) cid = Some (snd (start es s))"
    and "streams (snd (start_camera db es cid m)) = AList.update cid (snd (start es s)) (streams m)"
  using assms
  by (simp_all add: start_camera_def start_stream_def fst_with_lock streams_with_lock
      case_prod_beta update_conv')

lemma update_new_key: "map_of al k = None \<Longrightarrow> AList.update k v al = al @ [(k, v)]"
  by (induction al) (auto split: if_splits)

lemma update_appended:
  "map_of al k = None \<Longrightarrow> AList.update k v (al @ [(k, w)]) = al @ [(k, v)]"
  by (induction al) (auto split: if_splits)

lemma start_camera_lazy:
  assumes "map_of (streams m) cid = None"
    and "find (\<lambda>c. cfg_id c = cid) (load_camera_configs db) = Some c"
  shows "fst (start_camera db es cid m) = fst (start es (CameraStream_init c))"
    and "streams (snd (start_camera db es cid m)) =
           streams m @ [(cid, snd (start es (CameraStream_init c)))]"
  using assms
  by (simp_all add: start_camera_def start_stream_def fst_with_lock streams_with_lock
      case_prod_beta update_new_key update_appended)

text \<open>
  Claim C3, as the code has it. Take a known id whose stream is not running and has
  no live thread (never started, or every thread it launched has finished). The first
  \<open>start_camera\<close> launches one thread and returns \<open>True\<close> exactly when, during the
  sleep, that thread reached \<open>cv2.VideoCapture\<close>, the device reported itself open and
  \<open>1.0 / self.fps\<close> did not raise. When it returned \<open>True\<close>, a second \<open>start_camera\<close>
  with no \<open>stop\<close> in between, whatever the threads did meanwhile, returns \<open>False\<close> and
  leaves every stream, its threads included, as it was.
\<close>

theorem start_twice:
  assumes "map_of (streams m) cid = Some s" and "\<not> is_running s" and "no_live_thread s"
  shows "fst (start_camera db during_sleep cid m) =
           opens_in_time (length (threads s)) during_sleep s
       \<and> map_option (\<lambda>s1. length (threads s1))
            (map_of (streams (snd (start_camera db during_sleep cid m))) cid)
           = Some (Suc (length (threads s)))
       \<and> (fst (start_camera db during_sleep cid m) \<longrightarrow>
            fst (start_camera db2 during_sleep2 cid
                   (thread_progress between cid (snd (start_camera db during_sleep cid m))))
              = False
            \<and> streams (snd (start_camera db2 during_sleep2 cid
                   (thread_progress between cid (snd (start_camera db during_sleep cid m)))))
              = streams (thread_progress between cid (snd (start_camera db during_sleep cid m))))"
proof (intro conjI impI)
  let ?m1 = "snd (start_camera db during_sleep cid m)"
  let ?s1 = "snd (start during_sleep s)"
  let ?m2 = "thread_progress between cid ?m1"
  note launch = start_launch [OF assms(2,3)]
  show "fst (start_camera db during_sleep cid m) =
      opens_in_time (length (threads s)) during_sleep s"
    by (simp add: start_camera_known(1) [OF assms(1)] launch(1))
  show "map_option (\<lambda>s1. length (threads s1)) (map_of (streams ?m1) cid)
      = Some (Suc (length (threads s)))"
    by (simp add: start_camera_known(2) [OF assms(1)] launch(3))
  assume "fst (start_camera db during_sleep cid m)"
  then have "fst (start during_sleep s)"
    by (simp add: start_camera_known(1) [OF assms(1)])
  from launch(2) [OF this] have "steady ?s1" .
  from run_worker_steady [OF this, of between] have run: "is_running (run_worker between ?s1)"
    by (simp add: steady_def)
  have look: "map_of (streams ?m2) cid = Some (run_worker between ?s1)"
    by (simp add: map_of_thread_progress start_camera_known(2) [OF assms(1)])
  show "fst (start_camera db2 during_sleep2 cid ?m2) = False"
    by (simp add: start_camera_known(1) [OF look] start_running [OF run])
  show "streams (snd (start_camera db2 during_sleep2 cid ?m2)) = streams ?m2"
    by (simp add: start_camera_known(3) [OF look] start_running [OF run] update_triv [OF look])
qed

theorem start_twice_witness:
  "map_of (streams ex_manager) 1 = Some (CameraStream_init ex_cfg)
   \<and> \<not> is_running (CameraStream_init ex_cfg)
   \<and> no_live_thread (CameraStream_init ex_cfg)
   \<and> opens_in_time 0 [env_frame 0 100 []] (CameraStream_init ex_cfg)
   \<and> fst (start_camera (Inr [ex_cfg]) [env_frame 0 100 []] 1 ex_manager) = True
   \<and> fst (start_camera (Inr [ex_cfg]) [env_frame 0 102 []] 1
        (thread_progress [env_frame 0 101 [], env_frame 0 101 [9]] 1
           (snd (start_camera (Inr [ex_cfg]) [env_frame 0 100 []] 1 ex_manager)))) = False"
proof -
  have a: "map_of (streams ex_manager) 1 = Some (CameraStream_init ex_cfg)"
    by (simp add: ex_manager_def)
  have b: "\<not> is_running (CameraStream_init ex_cfg)"
    by (simp add: CameraStream_init_def)
  have n: "no_live_thread (CameraStream_init ex_cfg)"
    by (simp add: CameraStream_init_def no_live_thread_def)
  have c: "opens_in_time 0 [env_frame 0 100 []] (CameraStream_init ex_cfg)
      \<and> length (threads (CameraStream_init ex_cfg)) = 0"
    by (simp add: opens_in_time_def valid_fps_def frame_interval_def ex_defs)
  from a b n c start_twice [OF a b n, of "Inr [ex_cfg]" "[env_frame 0 100 []]" "Inr [ex_cfg]"
      "[env_frame 0 102 []]" "[env_frame 0 101 [], env_frame 0 101 [9]]"]
  show ?thesis by simp
qed

text \<open>
  The claim as written fails for a known camera whose device does not open: the
  first call returns \<open>False\<close>, and a second call, if the device opens then, returns
  \<open>True\<close>.
\<close>

theorem start_twice_counterexample:
  "map_of (streams ex_manager) 1 = Some (CameraStream_init ex_cfg)
   \<and> fst (start_camera (Inr [ex_cfg]) [env_no_device 0 100] 1 ex_manager) = False
   \<and> fst (start_camera (Inr [ex_cfg]) [env_frame 1 101 []] 1
            (snd (start_camera (Inr [ex_cfg]) [env_no_device 0 100] 1 ex_manager))) = True"
  by (simp add: manager_defs stream_defs ex_defs)

text \<open>
  With an older thread still alive the second part is not promised. Here the first
  \<open>start_camera\<close> sleeps while its thread is inside \<open>cv2.VideoCapture\<close> and returns
  \<open>False\<close>; the second launches another thread and returns \<open>True\<close> because the first
  thread opens the device; the second thread then fails to open it and its
  \<open>_cleanup\<close> clears the running flag; the third launches a third thread and returns
  \<open>True\<close>.
\<close>

lemma start_with_older_thread:
  "fst (start_camera (Inr [ex_cfg]) [] 1 ex_manager) = False
   \<and> fst (start_camera (Inr [ex_cfg]) [env_frame 0 101 []] 1
        (snd (start_camera (Inr [ex_cfg]) [] 1 ex_manager))) = True
   \<and> fst (start_camera (Inr [ex_cfg]) [env_frame 2 103 []] 1
        (thread_progress [env_no_device 1 102] 1
           (snd (start_camera (Inr [ex_cfg]) [env_frame 0 101 []] 1
              (snd (start_camera (Inr [ex_cfg]) [] 1 ex_manager)))))) = True
   \<and> map_option (\<lambda>s. length (threads s))
        (map_of (streams (snd (start_camera (Inr [ex_cfg]) [env_frame 2 103 []] 1
           (thread_progress [env_no_device 1 102] 1
              (snd (start_camera (Inr [ex_cfg]) [env_frame 0 101 []] 1
                 (snd (start_camera (Inr [ex_cfg]) [] 1 ex_manager)))))))) 1) = Some 3"
  by (simp add: manager_defs stream_defs ex_defs)

subsection \<open>Operations on an unknown id\<close>

text \<open>
  Claim C8, as the code has it. For an id that is not a key of the dictionary,
  \<open>get_camera_frame\<close> returns \<open>None\<close>, \<open>get_camera_status\<close> returns \<open>None\<close> (and does
  not raise), \<open>is_camera_running\<close> and \<open>stop_camera\<close> return \<open>False\<close>, and none of them
  changes the dictionary. \<open>start_camera\<close> returns \<open>False\<close> and changes nothing when the
  id is also absent from the fresh pull. When the pull has a configuration with that
  id, \<open>start_camera\<close> constructs the stream, starts it and adds it to the dictionary
  under the id, as \<open>start\<close> has left it; it returns what that \<open>start\<close> returns, which
  is \<open>True\<close> exactly when the new thread, during the sleep, found the device open and
  \<open>1.0 / self.fps\<close> did not raise.
\<close>

theorem unknown_id_operations:
  assumes "cid \<notin> known_ids m"
  shows "fst (get_camera_frame cid m) = None
       \<and> fst (get_camera_status now1 now2 cid m) = Inr None
       \<and> fst (is_camera_running cid m) = False
       \<and> fst (stop_camera during_join cid m) = False
       \<and> (cid \<notin> cfg_id ` set (load_camera_configs db) \<longrightarrow>
            fst (start_camera db during_sleep cid m) = False
            \<and> streams (snd (start_camera db during_sleep cid m)) = streams m)
       \<and> (\<forall>c. find (\<lambda>c. cfg_id c = cid) (load_camera_configs db) = Some c \<longrightarrow>
            fst (start_camera db during_sleep cid m) =
              fst (start during_sleep (CameraStream_init c))
            \<and> fst (start_camera db during_sleep cid m) =
                opens_in_time 0 during_sleep (CameraStream_init c)
            \<and> streams (snd (start_camera db during_sleep cid m)) =
                streams m @ [(cid, snd (start during_sleep (CameraStream_init c)))]
            \<and> known_ids (snd (start_camera db during_sleep cid m)) = insert cid (known_ids m))
       \<and> streams (snd (get_camera_frame cid m)) = streams m
       \<and> streams (snd (get_camera_status now1 now2 cid m)) = streams m
       \<and> streams (snd (is_camera_running cid m)) = streams m
       \<and> streams (snd (stop_camera during_join cid m)) = streams m"
proof -
  note look = unknown_lookup [OF assms]
  have absent: "fst (start_camera db during_sleep cid m) = False
      \<and> streams (snd (start_camera db during_sleep cid m)) = streams m"
    if "cid \<notin> cfg_id ` set (load_camera_configs db)"
    using that look
    by (simp add: start_camera_def fst_with_lock streams_with_lock find_cfg_None [symmetric])
  have present: "fst (start_camera db during_sleep cid m) =
        fst (start during_sleep (CameraStream_init c))
      \<and> fst (start_camera db during_sleep cid m) =
          opens_in_time 0 during_sleep (CameraStream_init c)
      \<and> streams (snd (start_camera db during_sleep cid m)) =
          streams m @ [(cid, snd (start during_sleep (CameraStream_init c)))]
      \<and> known_ids (snd (start_camera db during_sleep cid m)) = insert cid (known_ids m)"
    if "find (\<lambda>c. cfg_id c = cid) (load_camera_configs db) = Some c" for c
  proof -
    have "\<not> is_running (CameraStream_init c)" "no_live_thread (CameraStream_init c)"
      "length (threads (CameraStream_init c)) = 0"
      by (simp_all add: CameraStream_init_def no_live_thread_def)
    from start_launch(1) [OF this(1,2), of during_sleep] this(3)
    have "fst (start during_sleep (CameraStream_init c)) =
        opens_in_time 0 during_sleep (CameraStream_init c)" by simp
    with start_camera_lazy [OF look that, of during_sleep] show ?thesis
      by (simp add: known_ids_def)
  qed
  have reads: "fst (get_camera_frame cid m) = None
      \<and> fst (get_camera_status now1 now2 cid m) = Inr None
      \<and> fst (is_camera_running cid m) = False
      \<and> fst (stop_camera during_join cid m) = False
      \<and> streams (snd (get_camera_frame cid m)) = streams m
      \<and> streams (snd (get_camera_status now1 now2 cid m)) = streams m
      \<and> streams (snd (is_camera_running cid m)) = streams m
      \<and> streams (snd (stop_camera during_join cid m)) = streams m"
    using look
    by (simp add: get_camera_frame_def get_camera_status_def is_camera_running_def
        stop_camera_def fst_with_lock streams_with_lock)
  from reads absent present show ?thesis
    by blast
qed

theorem unknown_id_operations_witness:
  "99 \<notin> known_ids ex_manager
   \<and> fst (get_camera_frame 99 ex_manager) = None
   \<and> fst (get_camera_status 100 101 99 ex_manager) = Inr None
   \<and> fst (is_camera_running 99 ex_manager) = False
   \<and> fst (stop_camera [] 99 ex_manager) = False
   \<and> fst (start_camera (Inr [ex_cfg]) [env_frame 0 100 []] 99 ex_manager) = False
   \<and> 3 \<notin> known_ids ex_manager
   \<and> find (\<lambda>c. cfg_id c = 3) (load_camera_configs (Inr [ex_cfg, ex_cfg0])) = Some ex_cfg0
   \<and> fst (start_camera (Inr [ex_cfg, ex_cfg0]) [env_frame 0 100 []] 3 ex_manager) = False
   \<and> known_ids (snd (start_camera (Inr [ex_cfg, ex_cfg0]) [env_frame 0 100 []] 3 ex_manager))
       = {1, 3}"
proof -
  have u: "99 \<notin> known_ids ex_manager"
    by (simp add: known_ids_def ex_defs)
  have a: "99 \<notin> cfg_id ` set (load_camera_configs (Inr [ex_cfg]))"
    by (simp add: load_camera_configs_def ex_defs)
  have u3: "3 \<notin> known_ids ex_manager"
    by (simp add: known_ids_def ex_defs)
  have k: "known_ids ex_manager = {1}"
    by (simp add: known_ids_def ex_defs)
  have p: "find (\<lambda>c. cfg_id c = 3) (load_camera_configs (Inr [ex_cfg, ex_cfg0])) = Some ex_cfg0"
    by (simp add: load_camera_configs_def ex_defs)
  have s: "opens_in_time 0 [env_frame 0 100 []] (CameraStream_init ex_cfg0) = False"
    by (simp add: opens_in_time_def valid_fps_def frame_interval_def ex_defs)
  from u a u3 k p s
    unknown_id_operations [OF u, of 100 101 "[]" "Inr [ex_cfg]" "[env_frame 0 100 []]"]
    unknown_id_operations [OF u3, of 100 101 "[]" "Inr [ex_cfg, ex_cfg0]" "[env_frame 0 100 []]"]
  show ?thesis by auto
qed

text \<open>
  The claim as written fails for \<open>start_camera\<close>: on the empty registry, with camera 1
  in the pull and a device that opens, it returns \<open>True\<close> for the unknown id 1.
\<close>

theorem unknown_id_start_counterexample:
  "1 \<notin> known_ids CameraManager_init
   \<and> fst (start_camera (Inr [ex_cfg]) [env_frame 0 100 []] 1 CameraManager_init) = True"
  by (simp add: manager_defs stream_defs ex_defs)

subsection \<open>The counter of captured frames\<close>

lemma worker_step_count:
  "frames_captured (worker_step e s) =
     (if captures e s then frames_captured s + 1 else frames_captured s)"
  by (auto simp: worker_step_def loop_body_def captures_def
      split: thread_state.splits option.splits read_outcome.splits)

lemma run_worker_count: "frames_captured s \<le> frames_captured (run_worker es s)"
proof (induction es arbitrary: s)
  case Nil
  then show ?case by simp
next
  case (Cons e es)
  have "frames_captured s \<le> frames_captured (worker_step e s)"
    by (simp add: worker_step_count)
  also have "\<dots> \<le> frames_captured (run_worker es (worker_step e s))"
    by (rule Cons.IH)
  finally show ?case by simp
qed

lemma join_worker_count: "frames_captured s \<le> frames_captured (join_worker es s)"
proof (induction es arbitrary: s)
  case Nil
  then show ?case by simp
next
  case (Cons e es)
  have "frames_captured s \<le> frames_captured (worker_step e s)"
    by (simp add: worker_step_count)
  also have "\<dots> \<le> frames_captured (join_worker es (worker_step e s))"
    by (rule Cons.IH)
  finally show ?case by simp
qed

lemma start_count: "frames_captured s \<le> frames_captured (snd (start es s))"
  using run_worker_count [of "s\<lparr>shutdown_event := False, threads := threads s @ [AtOpen]\<rparr>" es]
  by (simp add: start_def Let_def)

lemma stop_count: "frames_captured s \<le> frames_captured (snd (snd (stop es s)))"
  using join_worker_count [of "s\<lparr>shutdown_event := True\<rparr>" es]
  by (simp add: stop_def Let_def case_prod_beta)

text \<open>
  Claim C2, as the code has it. The counter is \<open>0\<close> at construction. A step of a
  thread adds one when it is a loop body past the rate limit whose read returns a
  frame, and leaves the counter alone otherwise; so the counter never decreases over
  any run of the threads, nor over \<open>start\<close> or \<open>stop\<close>: nothing but construction sets
  it to zero.
\<close>

theorem frames_captured_monotone:
  "frames_captured (CameraStream_init c) = 0
   \<and> frames_captured (worker_step e s) =
       (if captures e s then frames_captured s + 1 else frames_captured s)
   \<and> frames_captured s \<le> frames_captured (worker_step e s)
   \<and> frames_captured s \<le> frames_captured (run_worker es s)
   \<and> frames_captured s \<le> frames_captured (snd (start es s))
   \<and> frames_captured s \<le> frames_captured (snd (snd (stop es s)))"
  by (simp add: worker_step_count run_worker_count start_count stop_count CameraStream_init_def)

theorem frames_captured_monotone_witness:
  "threads (worker_step (env_frame 0 101 []) ex_capturing) = [LoopBody (1 / 30)]
   \<and> captures (env_frame 0 101 [9]) (worker_step (env_frame 0 101 []) ex_capturing)
   \<and> frames_captured ex_capturing = 1
   \<and> frames_captured (run_worker [env_frame 0 101 [], env_frame 0 101 [9]] ex_capturing) = 2
   \<and> \<not> captures (env_no_frame 0 101) (worker_step (env_frame 0 101 []) ex_capturing)
   \<and> frames_captured (run_worker [env_frame 0 101 [], env_no_frame 0 101] ex_capturing) = 1"
proof -
  let ?s = "worker_step (env_frame 0 101 []) ex_capturing"
  have t: "threads ?s = [LoopBody (1 / 30)] \<and> last_frame_time ?s = 100
      \<and> frames_captured ?s = 1 \<and> cap ?s = Some VideoCapture"
    by (simp add: ex_capturing_eq worker_step_def env_frame_def set_thread_def)
  then have c: "captures (env_frame 0 101 [9]) ?s" and n: "\<not> captures (env_no_frame 0 101) ?s"
    by (simp_all add: captures_def env_frame_def env_no_frame_def)
  from t c n frames_captured_monotone [of ex_cfg "env_frame 0 101 [9]" ?s "[]"]
    frames_captured_monotone [of ex_cfg "env_no_frame 0 101" ?s "[]"]
  show ?thesis by (simp add: ex_capturing_eq)
qed

text \<open>
  The claim as written fails in its strict part: a running worker whose next loop
  iteration fails to read a frame has the same count after the iteration.
\<close>

theorem frames_captured_strict_counterexample:
  "is_running ex_capturing
   \<and> threads ex_capturing = [LoopHead (1 / 30)]
   \<and> \<not> frames_captured ex_capturing
        < frames_captured (run_worker [env_no_frame 0 101, env_no_frame 0 101] ex_capturing)
   \<and> is_running (run_worker [env_no_frame 0 101, env_no_frame 0 101] ex_capturing)
   \<and> threads (run_worker [env_no_frame 0 101, env_no_frame 0 101] ex_capturing)
       = [LoopHead (1 / 30)]"
  by (simp add: ex_capturing_eq stream_defs env_no_frame_def)

end
